theory Spec2Isabelle
  imports Main "HOL-Library.AList"
begin

section \<open>Python strings\<close>

text \<open>
  A Python \<open>str\<close> is a sequence of Unicode code points; the dictionary text is Chinese,
  so a character is modelled by its code point and not by a byte.
\<close>

type_synonym uchar = nat
type_synonym ustring = "uchar list"

definition uc :: "char \<Rightarrow> uchar" where
  "uc c = of_char c"

definition ustr :: "string \<Rightarrow> ustring" where
  "ustr s = map uc s"

text \<open>
  \<open>str.isspace\<close> for one character, which is what \<open>str.strip()\<close> and \<open>str.split()\<close>
  without arguments test: U+0009..U+000D, U+001C..U+0020, U+0085, U+00A0, U+1680,
  U+2000..U+200A, U+2028, U+2029, U+202F, U+205F and U+3000.
\<close>

definition isspace :: "uchar \<Rightarrow> bool" where
  "isspace c \<longleftrightarrow>
     (9 \<le> c \<and> c \<le> 13) \<or> (28 \<le> c \<and> c \<le> 32) \<or> c = 133 \<or> c = 160 \<or> c = 5760 \<or>
     (8192 \<le> c \<and> c \<le> 8202) \<or> c = 8232 \<or> c = 8233 \<or> c = 8239 \<or> c = 8287 \<or> c = 12288"

text \<open>\<open>s.startswith(p)\<close>\<close>

definition startswith :: "ustring \<Rightarrow> ustring \<Rightarrow> bool" where
  "startswith s p \<longleftrightarrow> take (length p) s = p"

text \<open>\<open>s.strip()\<close> and \<open>s.strip(c)\<close> for a single character \<open>c\<close>: both ends are trimmed.\<close>

definition strip_where :: "(uchar \<Rightarrow> bool) \<Rightarrow> ustring \<Rightarrow> ustring" where
  "strip_where P s = rev (dropWhile P (rev (dropWhile P s)))"

definition strip :: "ustring \<Rightarrow> ustring" where
  "strip s = strip_where isspace s"

definition strip_char :: "uchar \<Rightarrow> ustring \<Rightarrow> ustring" where
  "strip_char c s = strip_where (\<lambda>x. x = c) s"

text \<open>
  \<open>s.split()\<close> without a separator: runs of whitespace separate the tokens and no empty
  token is produced. The first argument is the token being read.
\<close>

fun split_ws_from :: "ustring \<Rightarrow> ustring \<Rightarrow> ustring list" where
  "split_ws_from cur [] = (if cur = [] then [] else [cur])"
| "split_ws_from cur (c # cs) =
     (if isspace c
      then (if cur = [] then split_ws_from [] cs else cur # split_ws_from [] cs)
      else split_ws_from (cur @ [c]) cs)"

definition split_ws :: "ustring \<Rightarrow> ustring list" where
  "split_ws s = split_ws_from [] s"

text \<open>\<open>s.split(sep)\<close> for a single character: empty pieces are kept, \<open>''''.split(sep) = ['''']\<close>.\<close>

fun split_sep :: "uchar \<Rightarrow> ustring \<Rightarrow> ustring list" where
  "split_sep sep [] = [[]]"
| "split_sep sep (c # cs) =
     (if c = sep then [] # split_sep sep cs
      else (case split_sep sep cs of
              [] \<Rightarrow> [[c]]
            | p # ps \<Rightarrow> (c # p) # ps))"

text \<open>\<open>s.split(sep, 1)\<close>: one piece when \<open>sep\<close> does not occur, else the text before and
  the text after its first occurrence.\<close>

definition split1 :: "uchar \<Rightarrow> ustring \<Rightarrow> ustring list" where
  "split1 sep s =
     (if sep \<in> set s
      then [takeWhile (\<lambda>x. x \<noteq> sep) s, tl (dropWhile (\<lambda>x. x \<noteq> sep) s)]
      else [s])"

section \<open>Parsing one line of CC-CEDICT\<close>

text \<open>The local variables \<open>traditional\<close>, \<open>simplified\<close>, \<open>pinyin\<close> and \<open>definitions\<close> that
  \<open>parse_cedict\<close> computes from one line.\<close>

record candidate =
  cand_traditional :: ustring
  cand_simplified :: ustring
  cand_pinyin :: ustring
  cand_definitions :: "ustring list"

text \<open>
  Lines 174 to 199 of \<open>download_dictionary.py\<close>: every \<open>continue\<close> is the result \<open>None\<close>.
  The indexed reads are guarded by the length tests before them, as in the source.
\<close>

definition parse_line :: "ustring \<Rightarrow> candidate option" where
  "parse_line line =
     (if startswith line (ustr ''#'') then None
      else
        let parts = split1 (uc CHR ''['') line in
        if length parts < 2 then None
        else
          let chars = split_ws (strip (parts ! 0)) in
          if length chars < 2 then None
          else
            let traditional = chars ! 0;
                simplified = chars ! 1;
                pinyin_def = split1 (uc CHR '']'') (parts ! 1) in
            if length pinyin_def < 2 then None
            else
              let pinyin = strip (pinyin_def ! 0);
                  definitions =
                    map strip
                      (filter (\<lambda>d. strip d \<noteq> [])
                        (split_sep (uc CHR ''/'') (strip_char (uc CHR ''/'') (pinyin_def ! 1))))
              in Some \<lparr>cand_traditional = traditional, cand_simplified = simplified,
                       cand_pinyin = pinyin, cand_definitions = definitions\<rparr>)"

section \<open>The records and the merge\<close>

record entry =
  traditional :: ustring
  simplified :: ustring
  pinyin :: ustring
  definitions :: "ustring list"
  frequency :: "int option"

text \<open>The dictionary keeps its keys in insertion order, as a Python \<open>dict\<close> does.\<close>

type_synonym dictionary = "(ustring \<times> entry) list"

text \<open>Truth value of an optional integer: \<open>None\<close> and \<open>0\<close> are false.\<close>

definition truthy :: "int option \<Rightarrow> bool" where
  "truthy v = (case v of None \<Rightarrow> False | Some n \<Rightarrow> n \<noteq> 0)"

text \<open>\<open>a or b\<close> on optional integers.\<close>

definition py_or :: "int option \<Rightarrow> int option \<Rightarrow> int option" where
  "py_or a b = (if truthy a then a else b)"

text \<open>Line 203: \<open>frequency_map.get(traditional) or frequency_map.get(simplified)\<close>.\<close>

definition lookup_frequency :: "(ustring \<rightharpoonup> int) \<Rightarrow> ustring \<Rightarrow> ustring \<Rightarrow> int option" where
  "lookup_frequency frequency_map trad simp = py_or (frequency_map trad) (frequency_map simp)"

text \<open>Lines 210 to 220: the existing record after a later line with the same key.\<close>

definition keep_higher :: "int option \<Rightarrow> entry \<Rightarrow> entry" where
  "keep_higher freq existing =
     (case freq of
        None \<Rightarrow> existing
      | Some f \<Rightarrow>
          if f \<noteq> 0 \<and> (case frequency existing of None \<Rightarrow> True | Some g \<Rightarrow> f > g)
          then existing\<lparr>frequency := Some f\<rparr>
          else existing)"

definition merge_entry :: "entry \<Rightarrow> candidate \<Rightarrow> int option \<Rightarrow> entry" where
  "merge_entry existing c freq =
     (let e1 = (if cand_pinyin c \<noteq> pinyin existing
                then existing\<lparr>pinyin := pinyin existing @ ustr ''; '' @ cand_pinyin c\<rparr>
                else existing);
          e2 = e1\<lparr>definitions := definitions e1 @ [ustr ''['' @ cand_pinyin c @ ustr '']'']\<rparr>;
          e3 = e2\<lparr>definitions := definitions e2 @ cand_definitions c\<rparr>
      in keep_higher freq e3)"

text \<open>Lines 223 to 229: the record of a key seen for the first time.\<close>

definition new_entry :: "candidate \<Rightarrow> int option \<Rightarrow> entry" where
  "new_entry c freq =
     \<lparr>traditional = cand_traditional c, simplified = cand_simplified c,
      pinyin = cand_pinyin c, definitions = cand_definitions c, frequency = freq\<rparr>"

text \<open>Lines 201 to 229: one accepted line changes the dictionary.\<close>

definition store :: "(ustring \<rightharpoonup> int) \<Rightarrow> dictionary \<Rightarrow> candidate \<Rightarrow> dictionary" where
  "store frequency_map dict c =
     (let freq = lookup_frequency frequency_map (cand_traditional c) (cand_simplified c) in
      case map_of dict (cand_traditional c) of
        Some existing \<Rightarrow> AList.update (cand_traditional c) (merge_entry existing c freq) dict
      | None \<Rightarrow> AList.update (cand_traditional c) (new_entry c freq) dict)"

text \<open>
  The loop of lines 172 to 244 over the lines of the file, with the dictionary and the
  counter as state; \<open>break\<close> returns the dictionary built so far.
\<close>

fun parse_loop ::
  "(ustring \<rightharpoonup> int) \<Rightarrow> int option \<Rightarrow> ustring list \<Rightarrow> dictionary \<Rightarrow> nat \<Rightarrow> dictionary" where
  "parse_loop frequency_map max_entries [] dict count = dict"
| "parse_loop frequency_map max_entries (line # rest) dict count =
     (case parse_line line of
        None \<Rightarrow> parse_loop frequency_map max_entries rest dict count
      | Some c \<Rightarrow>
          let dict' = store frequency_map dict c;
              count' = count + 1
          in if truthy max_entries \<and> int count' \<ge> the max_entries then dict'
             else parse_loop frequency_map max_entries rest dict' count')"

definition parse_cedict :: "ustring list \<Rightarrow> (ustring \<rightharpoonup> int) \<Rightarrow> int option \<Rightarrow> dictionary" where
  "parse_cedict lines frequency_map max_entries = parse_loop frequency_map max_entries lines [] 0"

section \<open>The frequency table\<close>

text \<open>\<open>re.sub(r'<[^>]+>', '', text)\<close>: a tag is \<open><\<close>, at least one character other than
  \<open>>\<close>, and the next \<open>>\<close>; every tag is deleted, scanning from the left.\<close>

function remove_tags :: "ustring \<Rightarrow> ustring" where
  "remove_tags [] = []"
| "remove_tags (c # cs) =
     (if c = uc CHR ''<'' \<and> takeWhile (\<lambda>x. x \<noteq> uc CHR ''>'') cs \<noteq> [] \<and>
         dropWhile (\<lambda>x. x \<noteq> uc CHR ''>'') cs \<noteq> []
      then remove_tags (tl (dropWhile (\<lambda>x. x \<noteq> uc CHR ''>'') cs))
      else c # remove_tags cs)"
  by pat_completeness auto
termination
proof (relation "measure length")
  show "wf (measure length)" by simp
next
  fix c :: uchar and cs :: ustring
  have "length (tl (dropWhile (\<lambda>x. x \<noteq> uc CHR ''>'') cs)) \<le> length cs"
    using length_dropWhile_le[of "\<lambda>x. x \<noteq> uc CHR ''>''" cs] by simp
  then show "(tl (dropWhile (\<lambda>x. x \<noteq> uc CHR ''>'') cs), c # cs) \<in> measure length"
    by simp
next
  fix c :: uchar and cs :: ustring
  show "(cs, c # cs) \<in> measure length" by simp
qed

text \<open>The local function \<open>strip_tags\<close> of lines 83 and 84.\<close>

definition strip_tags :: "ustring \<Rightarrow> ustring" where
  "strip_tags text = strip (remove_tags text)"

text \<open>
  One page of the frequency list as \<open>download_frequency_lists\<close> sees it: \<open>None\<close> when
  fetching or reading the page raises (the \<open>except\<close> branch of lines 128 to 133, taken
  before any row is read), else for every match of the row pattern the list \<open>cells\<close> that
  the cell pattern finds in it.
\<close>

type_synonym page = "ustring list list option"

text \<open>
  Lines 74 to 126, the loop over the rows of page \<open>i\<close>, with \<open>frequency_map\<close> and
  \<open>row_count\<close> as state.
\<close>

fun rows_loop ::
  "nat \<Rightarrow> ustring list list \<Rightarrow> (ustring \<rightharpoonup> int) \<Rightarrow> nat \<Rightarrow> (ustring \<rightharpoonup> int)" where
  "rows_loop i [] frequency_map row_count = frequency_map"
| "rows_loop i (cells # rest) frequency_map row_count =
     (if length cells < 2 then rows_loop i rest frequency_map row_count
      else
        let row_count' = row_count + 1;
            traditional = strip_tags (cells ! 0);
            simplified = strip_tags (cells ! 1) in
        if traditional = [] \<or> simplified = [] then rows_loop i rest frequency_map row_count'
        else
          let rank = i * 1000 + row_count';
              trad = strip traditional;
              simp = strip simplified;
              fm1 = (if trad \<noteq> [] \<and> frequency_map trad = None
                     then frequency_map(trad \<mapsto> 11000 - int rank) else frequency_map);
              fm2 = (if simp \<noteq> [] \<and> fm1 simp = None
                     then fm1(simp \<mapsto> 11000 - int rank) else fm1)
          in rows_loop i rest fm2 row_count')"

text \<open>Lines 38 to 133, the loop over the pages; a page that raised leaves the map as it is.\<close>

fun pages_loop :: "nat \<Rightarrow> page list \<Rightarrow> (ustring \<rightharpoonup> int) \<Rightarrow> (ustring \<rightharpoonup> int)" where
  "pages_loop i [] frequency_map = frequency_map"
| "pages_loop i (p # ps) frequency_map =
     (case p of
        None \<Rightarrow> pages_loop (i + 1) ps frequency_map
      | Some rows \<Rightarrow> pages_loop (i + 1) ps (rows_loop i rows frequency_map 0))"

definition download_frequency_lists :: "page list \<Rightarrow> (ustring \<rightharpoonup> int)" where
  "download_frequency_lists pages = pages_loop 0 pages Map.empty"

section \<open>Notions used to state the properties\<close>

text \<open>
  The rows of page \<open>i\<close> that yield a word pair, each with its global rank: the rows with
  at least two cells are numbered from \<open>n + 1\<close> in page order (\<open>n = 0\<close> for a whole page),
  the rank is \<open>i * 1000\<close> plus that number, and a row yields a pair when both of its first
  two cells are non-empty once the markup is stripped.
\<close>

definition ranked_rows :: "nat \<Rightarrow> nat \<Rightarrow> ustring list list \<Rightarrow> (nat \<times> ustring \<times> ustring) list" where
  "ranked_rows i n rows =
     map (\<lambda>(k, cells). (i * 1000 + (k + 1), strip_tags (cells ! 0), strip_tags (cells ! 1)))
       (filter (\<lambda>(k, cells). strip_tags (cells ! 0) \<noteq> [] \<and> strip_tags (cells ! 1) \<noteq> [])
         (enumerate n (filter (\<lambda>cells. 2 \<le> length cells) rows)))"

text \<open>The ranked pairs of all pages, the pages numbered from \<open>i\<close>; a page that raised has none.\<close>

definition ranked_words :: "nat \<Rightarrow> page list \<Rightarrow> (nat \<times> ustring \<times> ustring) list" where
  "ranked_words i pages =
     concat (map (\<lambda>(j, p). case p of None \<Rightarrow> [] | Some rows \<Rightarrow> ranked_rows j 0 rows)
                 (enumerate i pages))"

text \<open>The rank of the first pair in which the word \<open>w\<close> is the traditional or the simplified form.\<close>

definition first_rank :: "ustring \<Rightarrow> (nat \<times> ustring \<times> ustring) list \<Rightarrow> nat option" where
  "first_rank w xs = map_option fst (find (\<lambda>(r, t, s). t = w \<or> s = w) xs)"

text \<open>The order on stored frequencies: an unset frequency is below every score.\<close>

definition freq_le :: "int option \<Rightarrow> int option \<Rightarrow> bool" where
  "freq_le a b =
     (case a of
        None \<Rightarrow> True
      | Some x \<Rightarrow> (case b of None \<Rightarrow> False | Some y \<Rightarrow> x \<le> y))"

text \<open>
  A cap that does not cut an input with \<open>k\<close> accepted lines: \<open>max_entries\<close> is \<open>None\<close> (as
  \<open>main\<close> passes it) or 0, which line 238 both read as no cap, or it is at least \<open>k\<close>.
\<close>

definition cap_allows :: "int option \<Rightarrow> nat \<Rightarrow> bool" where
  "cap_allows max_entries k =
     (case max_entries of None \<Rightarrow> True | Some m \<Rightarrow> m = 0 \<or> int k \<le> m)"

section \<open>Evaluation and basic facts\<close>

lemmas string_eval =
  ustr_def uc_def startswith_def split1_def split_ws_def strip_def strip_where_def
  strip_char_def isspace_def

lemmas parse_eval =
  parse_line_def string_eval parse_cedict_def store_def lookup_frequency_def py_or_def
  truthy_def merge_entry_def new_entry_def keep_higher_def

lemma update_absent: "map_of al k = None \<Longrightarrow> AList.update k v al = al @ [(k, v)]"
  by (induction al) (auto split: if_splits)

lemma set_update_cases:
  "x \<in> set (AList.update k v al) \<Longrightarrow> x = (k, v) \<or> x \<in> set al"
  by (induction al) (auto split: if_splits)

lemma keep_higher_fields:
  "traditional (keep_higher f e) = traditional e"
  "simplified (keep_higher f e) = simplified e"
  "pinyin (keep_higher f e) = pinyin e"
  "definitions (keep_higher f e) = definitions e"
  by (simp_all add: keep_higher_def split: option.splits)

lemma merge_entry_fields:
  "traditional (merge_entry e c f) = traditional e"
  "simplified (merge_entry e c f) = simplified e"
  "pinyin (merge_entry e c f) =
     (if cand_pinyin c \<noteq> pinyin e then pinyin e @ ustr ''; '' @ cand_pinyin c else pinyin e)"
  "definitions (merge_entry e c f) =
     definitions e @ [ustr ''['' @ cand_pinyin c @ ustr '']''] @ cand_definitions c"
  by (simp_all add: merge_entry_def Let_def keep_higher_fields)

lemma frequency_keep_higher:
  "frequency e' = frequency e \<Longrightarrow>
   frequency (keep_higher f e') = frequency e \<or>
   (\<exists>v. f = Some v \<and> v \<noteq> 0 \<and> frequency (keep_higher f e') = Some v \<and>
        (case frequency e of None \<Rightarrow> True | Some g \<Rightarrow> g < v))"
  by (simp add: keep_higher_def split: option.splits)

lemma frequency_merge_entry:
  "frequency (merge_entry e c f) = frequency e \<or>
   (\<exists>v. f = Some v \<and> v \<noteq> 0 \<and> frequency (merge_entry e c f) = Some v \<and>
        (case frequency e of None \<Rightarrow> True | Some g \<Rightarrow> g < v))"
  unfolding merge_entry_def Let_def by (rule frequency_keep_higher) simp

lemma freq_le_refl: "freq_le a a"
  by (simp add: freq_le_def split: option.splits)

lemma freq_le_trans: "freq_le a b \<Longrightarrow> freq_le b c \<Longrightarrow> freq_le a c"
  by (auto simp: freq_le_def split: option.splits)

lemma freq_le_merge_entry: "freq_le (frequency e) (frequency (merge_entry e c f))"
  using frequency_merge_entry[of e c f]
  by (auto simp: freq_le_def split: option.splits)

lemma lookup_frequency_cases:
  "lookup_frequency fm t s =
     (case fm t of None \<Rightarrow> fm s | Some v \<Rightarrow> if v \<noteq> 0 then Some v else fm s)"
  by (simp add: lookup_frequency_def py_or_def truthy_def split: option.splits)

subsection \<open>One accepted line\<close>

lemma store_absent:
  "map_of dict (cand_traditional c) = None \<Longrightarrow>
   store fm dict c = dict @ [(cand_traditional c,
      new_entry c (lookup_frequency fm (cand_traditional c) (cand_simplified c)))]"
  by (simp add: store_def update_absent)

lemma store_lookup:
  "map_of (store fm dict c) k =
     (if cand_traditional c = k
      then Some (case map_of dict k of
                   None \<Rightarrow> new_entry c (lookup_frequency fm (cand_traditional c) (cand_simplified c))
                 | Some e \<Rightarrow> merge_entry e c (lookup_frequency fm (cand_traditional c) (cand_simplified c)))
      else map_of dict k)"
  by (cases "map_of dict (cand_traditional c)") (auto simp: store_def update_conv')

lemma store_key_agreement:
  assumes "\<forall>(k, r)\<in>set dict. traditional r = k"
  shows "\<forall>(k, r)\<in>set (store fm dict c). traditional r = k"
proof (cases "map_of dict (cand_traditional c)")
  case None
  then show ?thesis using assms
    by (auto simp: store_def new_entry_def dest!: set_update_cases)
next
  case (Some e)
  then have "traditional e = cand_traditional c"
    using assms map_of_SomeD by fastforce
  then show ?thesis using assms Some
    by (auto simp: store_def merge_entry_fields dest!: set_update_cases)
qed

lemma store_distinct: "distinct (map fst dict) \<Longrightarrow> distinct (map fst (store fm dict c))"
  by (simp add: store_def Let_def distinct_update split: option.splits)

subsection \<open>The loop\<close>

lemma parse_loop_uncapped:
  "map parse_line ls = map Some cs \<Longrightarrow> cap_allows me (n + length cs) \<Longrightarrow>
   parse_loop fm me ls dict n = foldl (store fm) dict cs"
proof (induction ls arbitrary: cs dict n)
  case Nil
  then show ?case by simp
next
  case (Cons l ls)
  then obtain c cs' where cs: "cs = c # cs'" "parse_line l = Some c" "map parse_line ls = map Some cs'"
    by (cases cs) auto
  show ?case
  proof (cases "truthy me \<and> int (n + 1) \<ge> the me")
    case True
    then obtain m where m: "me = Some m" "m \<noteq> 0" "m \<le> int (n + 1)"
      by (cases me) (auto simp: truthy_def)
    then have "int (n + length cs) \<le> m"
      using Cons.prems(2) by (simp add: cap_allows_def)
    moreover have "length cs = Suc (length cs')"
      using cs(1) by simp
    ultimately have "length cs' \<le> 0"
      using m(3) by linarith
    then have "cs' = []" by simp
    then show ?thesis using True cs by (simp add: Let_def)
  next
    case False
    have "cap_allows me (n + 1 + length cs')"
      using Cons.prems(2) cs(1) by simp
    then show ?thesis using False cs Cons.IH[OF cs(3), of "n + 1"] by (auto simp: Let_def)
  qed
qed

lemma foldl_store_distinct:
  "distinct (map cand_traditional cs) \<Longrightarrow> \<forall>c\<in>set cs. map_of dict (cand_traditional c) = None \<Longrightarrow>
   foldl (store fm) dict cs =
     dict @ map (\<lambda>c. (cand_traditional c,
                      new_entry c (lookup_frequency fm (cand_traditional c) (cand_simplified c)))) cs"
proof (induction cs arbitrary: dict)
  case Nil
  then show ?case by simp
next
  case (Cons c cs)
  have 1: "store fm dict c = dict @ [(cand_traditional c,
             new_entry c (lookup_frequency fm (cand_traditional c) (cand_simplified c)))]"
    using Cons.prems(2) by (simp add: store_absent)
  have 2: "\<forall>c'\<in>set cs. map_of (store fm dict c) (cand_traditional c') = None"
  proof
    fix c' assume c': "c' \<in> set cs"
    then have "cand_traditional c' \<noteq> cand_traditional c"
      using Cons.prems(1) by (auto simp: image_iff)
    moreover have "map_of dict (cand_traditional c') = None"
      using Cons.prems(2) c' by simp
    ultimately show "map_of (store fm dict c) (cand_traditional c') = None"
      by (simp add: 1 map_add_def)
  qed
  have 3: "distinct (map cand_traditional cs)" using Cons.prems(1) by simp
  show ?case using Cons.IH[OF 3 2] by (simp add: 1)
qed

text \<open>A relation between the old and the new record of a key that every merge respects
  holds between a record and what the rest of the loop makes of it.\<close>

lemma parse_loop_related:
  assumes refl: "\<And>e. R e e"
    and trans: "\<And>a b c. R a b \<Longrightarrow> R b c \<Longrightarrow> R a c"
    and step: "\<And>e c f. R e (merge_entry e c f)"
  shows "map_of dict k = Some e \<Longrightarrow>
         \<exists>e'. map_of (parse_loop fm me ls dict n) k = Some e' \<and> R e e'"
proof (induction ls arbitrary: dict n e)
  case Nil
  then show ?case using refl by simp
next
  case (Cons l ls)
  show ?case
  proof (cases "parse_line l")
    case None
    then show ?thesis using Cons.IH[OF Cons.prems] by simp
  next
    case (Some c)
    have "\<exists>e1. map_of (store fm dict c) k = Some e1 \<and> R e e1"
      using Cons.prems refl step by (cases "cand_traditional c = k") (simp_all add: store_lookup)
    then obtain e1 where e1: "map_of (store fm dict c) k = Some e1" "R e e1"
      by blast
    obtain e2 where e2: "map_of (parse_loop fm me ls (store fm dict c) (n + 1)) k = Some e2" "R e1 e2"
      using Cons.IH[OF e1(1)] by blast
    show ?thesis
      using Some e1 e2 trans[OF e1(2) e2(2)] by (auto simp: Let_def)
  qed
qed

text \<open>A property of the dictionary that every accepted line of the input keeps holds for
  the result, whatever the cap on the number of entries.\<close>

lemma parse_loop_invariant:
  assumes step: "\<And>d l c. l \<in> set ls \<Longrightarrow> parse_line l = Some c \<Longrightarrow> I d \<Longrightarrow> I (store fm d c)"
    and init: "I dict"
  shows "I (parse_loop fm me ls dict n)"
  using assms
proof (induction ls arbitrary: dict n)
  case Nil
  then show ?case by simp
next
  case (Cons l ls)
  have tail: "I (store fm d c)" if "l' \<in> set ls" "parse_line l' = Some c" "I d" for d l' c
    using Cons.prems(1)[of l' c d] that by simp
  show ?case
  proof (cases "parse_line l")
    case None
    then show ?thesis using Cons.IH[of dict n, OF tail Cons.prems(2)] by simp
  next
    case (Some c)
    have "I (store fm dict c)" using Cons.prems(1)[of l c dict] Some Cons.prems(2) by simp
    then show ?thesis
      using Some Cons.IH[of "store fm dict c" "n + 1", OF tail] by (simp add: Let_def)
  qed
qed

subsection \<open>Two lines of one headword in an input\<close>

lemma parse_loop_fold:
  "cap_allows me (n + length (List.map_filter parse_line ls)) \<Longrightarrow>
   parse_loop fm me ls dict n = foldl (store fm) dict (List.map_filter parse_line ls)"
proof (induction ls arbitrary: dict n)
  case Nil
  then show ?case by simp
next
  case (Cons l ls)
  show ?case
  proof (cases "parse_line l")
    case None
    then show ?thesis using Cons.IH[of n dict] Cons.prems by simp
  next
    case (Some c)
    let ?cs = "List.map_filter parse_line ls"
    have cap: "cap_allows me (n + 1 + length ?cs)"
      using Cons.prems Some by simp
    show ?thesis
    proof (cases "truthy me \<and> int (n + 1) \<ge> the me")
      case True
      then obtain m where m: "me = Some m" "m \<noteq> 0" "m \<le> int (n + 1)"
        by (cases me) (auto simp: truthy_def)
      then have "int (n + 1 + length ?cs) \<le> m"
        using cap by (simp add: cap_allows_def)
      then have "length ?cs \<le> 0"
        using m(3) by linarith
      then have "?cs = []" by simp
      then show ?thesis using True Some by (simp add: Let_def)
    next
      case False
      then show ?thesis using Some Cons.IH[OF cap, of "store fm dict c"]
        by (auto simp: Let_def)
    qed
  qed
qed

lemma map_filter_append: "List.map_filter f (xs @ ys) = List.map_filter f xs @ List.map_filter f ys"
  by (simp add: List.map_filter_def)

lemma map_filter_parse_lineD:
  "c \<in> set (List.map_filter parse_line ls) \<Longrightarrow> \<exists>l\<in>set ls. parse_line l = Some c"
  by (auto simp: List.map_filter_def)

lemma foldl_store_other:
  "\<forall>c\<in>set cs. cand_traditional c \<noteq> k \<Longrightarrow> map_of (foldl (store fm) dict cs) k = map_of dict k"
  by (induction cs arbitrary: dict) (simp_all add: store_lookup)

lemma parse_loop_distinct: "distinct (map fst dict) \<Longrightarrow> distinct (map fst (parse_loop fm me ls dict n))"
  by (rule parse_loop_invariant[where I = "\<lambda>d. distinct (map fst d)"]) (simp_all add: store_distinct)

lemma filter_key_distinct:
  "distinct (map fst al) \<Longrightarrow> map_of al k = Some v \<Longrightarrow> filter (\<lambda>p. fst p = k) al = [(k, v)]"
proof (induction al)
  case Nil
  then show ?case by simp
next
  case (Cons p al)
  show ?case
  proof (cases "fst p = k")
    case True
    then have "p = (k, v)" using Cons.prems(2) by (cases p) simp
    moreover have "filter (\<lambda>p. fst p = k) al = []"
    proof -
      have "\<forall>q\<in>set al. fst q \<noteq> k"
        using Cons.prems(1) True by (auto simp: image_iff)
      then show ?thesis by (simp add: filter_empty_conv)
    qed
    ultimately show ?thesis by simp
  next
    case False
    then show ?thesis using Cons by (cases p) auto
  qed
qed

text \<open>Two accepted lines of one headword anywhere in an input whose other accepted lines
  have other headwords: the record of the headword is the first line's new record with the
  second line merged into it, and it is the only record of that key.\<close>

lemma two_lines_of_key:
  assumes l1: "parse_line l1 = Some c1" and l2: "parse_line l2 = Some c2"
    and key: "cand_traditional c1 = cand_traditional c2"
    and others: "\<forall>l\<in>set (before @ mid @ rest). \<forall>c. parse_line l = Some c \<longrightarrow>
                   cand_traditional c \<noteq> cand_traditional c1"
    and cap: "cap_allows me (length (List.map_filter parse_line (before @ l1 # mid @ l2 # rest)))"
  shows "filter (\<lambda>p. fst p = cand_traditional c1)
           (parse_cedict (before @ l1 # mid @ l2 # rest) fm me) =
         [(cand_traditional c1,
           merge_entry (new_entry c1 (lookup_frequency fm (cand_traditional c1) (cand_simplified c1))) c2
             (lookup_frequency fm (cand_traditional c2) (cand_simplified c2)))]"
proof -
  let ?k = "cand_traditional c1"
  let ?B = "List.map_filter parse_line before"
  let ?M = "List.map_filter parse_line mid"
  let ?R = "List.map_filter parse_line rest"
  let ?e1 = "new_entry c1 (lookup_frequency fm (cand_traditional c1) (cand_simplified c1))"
  let ?e2 = "merge_entry ?e1 c2 (lookup_frequency fm (cand_traditional c2) (cand_simplified c2))"
  have other: "\<forall>c\<in>set xs. cand_traditional c \<noteq> ?k"
    if "xs = ?B \<or> xs = ?M \<or> xs = ?R" for xs
    using that others by (auto dest!: map_filter_parse_lineD)
  have cs: "List.map_filter parse_line (before @ l1 # mid @ l2 # rest) = ?B @ c1 # ?M @ c2 # ?R"
    using l1 l2 by (simp add: map_filter_append)
  have run: "parse_cedict (before @ l1 # mid @ l2 # rest) fm me =
             foldl (store fm) [] (?B @ c1 # ?M @ c2 # ?R)"
    using parse_loop_fold[of me 0 "before @ l1 # mid @ l2 # rest" fm "[]"] cap
    by (simp add: parse_cedict_def cs)
  let ?d1 = "foldl (store fm) [] ?B"
  let ?d2 = "store fm ?d1 c1"
  let ?d3 = "foldl (store fm) ?d2 ?M"
  let ?d4 = "store fm ?d3 c2"
  let ?d5 = "foldl (store fm) ?d4 ?R"
  have 1: "map_of ?d1 ?k = None"
    using foldl_store_other[OF other, of ?B fm "[]"] by simp
  have 2: "map_of ?d2 ?k = Some ?e1" using 1 by (simp add: store_lookup)
  have 3: "map_of ?d3 ?k = Some ?e1"
    using foldl_store_other[OF other, of ?M fm ?d2] 2 by simp
  have 4: "map_of ?d4 ?k = Some ?e2" using 3 key by (simp add: store_lookup)
  have 5: "map_of ?d5 ?k = Some ?e2"
    using foldl_store_other[OF other, of ?R fm ?d4] 4 by simp
  have "map_of (parse_cedict (before @ l1 # mid @ l2 # rest) fm me) ?k = Some ?e2"
    using 5 by (simp add: run)
  moreover have "distinct (map fst (parse_cedict (before @ l1 # mid @ l2 # rest) fm me))"
    by (simp add: parse_cedict_def parse_loop_distinct)
  ultimately show ?thesis by (rule filter_key_distinct[rotated])
qed

section \<open>Merging two lines of one headword\<close>

text \<open>
  C1. Two accepted lines with the same traditional headword and different pronunciations,
  anywhere in an input whose other accepted lines have other headwords, read under a cap
  that does not cut the input, give exactly one record under that headword: its
  definitions are the glosses of the first line, then the marker \<open>[\<close> pronunciation of the
  second line \<open>]\<close>, then the glosses of the second line, and its pinyin is the first
  pronunciation, \<open>; \<close> and the second pronunciation.
\<close>

theorem merge_different_pinyin:
  assumes "parse_line l1 = Some c1" and "parse_line l2 = Some c2"
    and "cand_traditional c1 = cand_traditional c2"
    and "cand_pinyin c1 \<noteq> cand_pinyin c2"
    and "\<forall>l\<in>set (before @ mid @ rest). \<forall>c. parse_line l = Some c \<longrightarrow>
           cand_traditional c \<noteq> cand_traditional c1"
    and "cap_allows me (length (List.map_filter parse_line (before @ l1 # mid @ l2 # rest)))"
  shows "\<exists>r. filter (\<lambda>p. fst p = cand_traditional c1)
                (parse_cedict (before @ l1 # mid @ l2 # rest) fm me) = [(cand_traditional c1, r)] \<and>
     traditional r = cand_traditional c1 \<and>
     simplified r = cand_simplified c1 \<and>
     definitions r =
       cand_definitions c1 @ [ustr ''['' @ cand_pinyin c2 @ ustr '']''] @ cand_definitions c2 \<and>
     pinyin r = cand_pinyin c1 @ ustr ''; '' @ cand_pinyin c2"
  using assms(4)
  by (simp add: two_lines_of_key[OF assms(1,2,3,5,6)] merge_entry_fields new_entry_def)

text \<open>
  The example of the specification, the two lines of the headword U+4E2D U+570B: first
  after a comment and with a line of another headword between them, then alone.
\<close>

theorem merge_different_pinyin_witness:
  "(\<exists>r. filter (\<lambda>p. fst p = [20013, 22283])
           (parse_cedict
              [ustr ''# CC-CEDICT'',
               [20013, 22283] @ ustr '' '' @ [20013, 22269] @
                 ustr '' [Zhong1 guo2] /China/Middle Kingdom/'' @ [10],
               ustr ''A a [x] /d/'',
               [20013, 22283] @ ustr '' '' @ [20013, 22269] @
                 ustr '' [Zhong1guo2] /(old) Central Plain/'' @ [10]]
              Map.empty None) = [([20013, 22283], r)] \<and>
        simplified r = [20013, 22269] \<and>
        definitions r =
          [ustr ''China'', ustr ''Middle Kingdom'', ustr ''[Zhong1guo2]'', ustr ''(old) Central Plain''] \<and>
        pinyin r = ustr ''Zhong1 guo2; Zhong1guo2'') \<and>
   (\<exists>r. filter (\<lambda>p. fst p = [20013, 22283])
           (parse_cedict
              [[20013, 22283] @ ustr '' '' @ [20013, 22269] @
                 ustr '' [Zhong1 guo2] /China/Middle Kingdom/'' @ [10],
               [20013, 22283] @ ustr '' '' @ [20013, 22269] @
                 ustr '' [Zhong1guo2] /(old) Central Plain/'' @ [10]]
              Map.empty (Some 2)) = [([20013, 22283], r)] \<and>
        simplified r = [20013, 22269] \<and>
        definitions r =
          [ustr ''China'', ustr ''Middle Kingdom'', ustr ''[Zhong1guo2]'', ustr ''(old) Central Plain''] \<and>
        pinyin r = ustr ''Zhong1 guo2; Zhong1guo2'')"
proof -
  have 1: "parse_line ([20013, 22283] @ ustr '' '' @ [20013, 22269] @
             ustr '' [Zhong1 guo2] /China/Middle Kingdom/'' @ [10]) =
           Some \<lparr>cand_traditional = [20013, 22283], cand_simplified = [20013, 22269],
                 cand_pinyin = ustr ''Zhong1 guo2'',
                 cand_definitions = [ustr ''China'', ustr ''Middle Kingdom'']\<rparr>"
    by (simp add: parse_line_def string_eval)
  have 2: "parse_line ([20013, 22283] @ ustr '' '' @ [20013, 22269] @
             ustr '' [Zhong1guo2] /(old) Central Plain/'' @ [10]) =
           Some \<lparr>cand_traditional = [20013, 22283], cand_simplified = [20013, 22269],
                 cand_pinyin = ustr ''Zhong1guo2'',
                 cand_definitions = [ustr ''(old) Central Plain'']\<rparr>"
    by (simp add: parse_line_def string_eval)
  have o1: "\<forall>l\<in>set ([ustr ''# CC-CEDICT''] @ [ustr ''A a [x] /d/''] @ []).
              \<forall>c. parse_line l = Some c \<longrightarrow>
                cand_traditional c \<noteq>
                cand_traditional
                  \<lparr>cand_traditional = [20013, 22283], cand_simplified = [20013, 22269],
                   cand_pinyin = ustr ''Zhong1 guo2'',
                   cand_definitions = [ustr ''China'', ustr ''Middle Kingdom'']\<rparr>"
    by (auto simp: parse_line_def string_eval)
  have cap1: "cap_allows None
     (length (List.map_filter parse_line
        ([ustr ''# CC-CEDICT''] @
         ([20013, 22283] @ ustr '' '' @ [20013, 22269] @
            ustr '' [Zhong1 guo2] /China/Middle Kingdom/'' @ [10]) #
         [ustr ''A a [x] /d/''] @
         ([20013, 22283] @ ustr '' '' @ [20013, 22269] @
            ustr '' [Zhong1guo2] /(old) Central Plain/'' @ [10]) # [])))"
    by (simp add: cap_allows_def)
  have o2: "\<forall>l\<in>set ([] @ [] @ []).
              \<forall>c. parse_line l = Some c \<longrightarrow>
                cand_traditional c \<noteq>
                cand_traditional
                  \<lparr>cand_traditional = [20013, 22283], cand_simplified = [20013, 22269],
                   cand_pinyin = ustr ''Zhong1 guo2'',
                   cand_definitions = [ustr ''China'', ustr ''Middle Kingdom'']\<rparr>"
    by simp
  have cap2: "cap_allows (Some 2)
     (length (List.map_filter parse_line
        ([] @
         ([20013, 22283] @ ustr '' '' @ [20013, 22269] @
            ustr '' [Zhong1 guo2] /China/Middle Kingdom/'' @ [10]) #
         [] @
         ([20013, 22283] @ ustr '' '' @ [20013, 22269] @
            ustr '' [Zhong1guo2] /(old) Central Plain/'' @ [10]) # [])))"
    by (simp add: cap_allows_def parse_line_def string_eval)
  have k: "cand_traditional
             \<lparr>cand_traditional = [20013, 22283], cand_simplified = [20013, 22269],
              cand_pinyin = ustr ''Zhong1 guo2'',
              cand_definitions = [ustr ''China'', ustr ''Middle Kingdom'']\<rparr> =
           cand_traditional
             \<lparr>cand_traditional = [20013, 22283], cand_simplified = [20013, 22269],
              cand_pinyin = ustr ''Zhong1guo2'',
              cand_definitions = [ustr ''(old) Central Plain'']\<rparr>"
    by simp
  have d: "cand_pinyin
             \<lparr>cand_traditional = [20013, 22283], cand_simplified = [20013, 22269],
              cand_pinyin = ustr ''Zhong1 guo2'',
              cand_definitions = [ustr ''China'', ustr ''Middle Kingdom'']\<rparr> \<noteq>
           cand_pinyin
             \<lparr>cand_traditional = [20013, 22283], cand_simplified = [20013, 22269],
              cand_pinyin = ustr ''Zhong1guo2'',
              cand_definitions = [ustr ''(old) Central Plain'']\<rparr>"
    by (simp add: ustr_def uc_def)
  show ?thesis
    using merge_different_pinyin[OF 1 2 k d o1 cap1, of Map.empty]
      merge_different_pinyin[OF 1 2 k d o2 cap2, of Map.empty]
    by (auto simp: ustr_def uc_def)
qed

text \<open>
  C5. Two accepted lines with the same traditional headword and the same pronunciation,
  anywhere in an input whose other accepted lines have other headwords, read under a cap
  that does not cut the input, give exactly one record under that headword: its pinyin is
  that pronunciation, once, and its definitions still receive the marker \<open>[\<close> pronunciation
  \<open>]\<close> and the glosses of the second line.
\<close>

theorem merge_same_pinyin:
  assumes "parse_line l1 = Some c1" and "parse_line l2 = Some c2"
    and "cand_traditional c1 = cand_traditional c2"
    and "cand_pinyin c1 = cand_pinyin c2"
    and "\<forall>l\<in>set (before @ mid @ rest). \<forall>c. parse_line l = Some c \<longrightarrow>
           cand_traditional c \<noteq> cand_traditional c1"
    and "cap_allows me (length (List.map_filter parse_line (before @ l1 # mid @ l2 # rest)))"
  shows "\<exists>r. filter (\<lambda>p. fst p = cand_traditional c1)
                (parse_cedict (before @ l1 # mid @ l2 # rest) fm me) = [(cand_traditional c1, r)] \<and>
     traditional r = cand_traditional c1 \<and>
     simplified r = cand_simplified c1 \<and>
     definitions r =
       cand_definitions c1 @ [ustr ''['' @ cand_pinyin c2 @ ustr '']''] @ cand_definitions c2 \<and>
     pinyin r = cand_pinyin c1"
  using assms(4)
  by (simp add: two_lines_of_key[OF assms(1,2,3,5,6)] merge_entry_fields new_entry_def)

text \<open>Two lines of \<open>A\<close> with the pronunciation \<open>x1\<close>, a malformed line before them, a line
  of \<open>B\<close> between them and a line of \<open>C\<close> after them.\<close>

theorem merge_same_pinyin_witness:
  "\<exists>r. filter (\<lambda>p. fst p = ustr ''A'')
          (parse_cedict
             [ustr ''no brackets'', ustr ''A a [x1] /one/'', ustr ''B b [y] /d/'',
              ustr ''A a [x1] /two/three/'', ustr ''C c [z] /e/'']
             Map.empty (Some 4)) = [(ustr ''A'', r)] \<and>
       definitions r = [ustr ''one'', ustr ''[x1]'', ustr ''two'', ustr ''three''] \<and>
       pinyin r = ustr ''x1''"
proof -
  have 1: "parse_line (ustr ''A a [x1] /one/'') =
           Some \<lparr>cand_traditional = ustr ''A'', cand_simplified = ustr ''a'',
                 cand_pinyin = ustr ''x1'', cand_definitions = [ustr ''one'']\<rparr>"
    by (simp add: parse_line_def string_eval)
  have 2: "parse_line (ustr ''A a [x1] /two/three/'') =
           Some \<lparr>cand_traditional = ustr ''A'', cand_simplified = ustr ''a'',
                 cand_pinyin = ustr ''x1'', cand_definitions = [ustr ''two'', ustr ''three'']\<rparr>"
    by (simp add: parse_line_def string_eval)
  have k: "cand_traditional
             \<lparr>cand_traditional = ustr ''A'', cand_simplified = ustr ''a'',
              cand_pinyin = ustr ''x1'', cand_definitions = [ustr ''one'']\<rparr> =
           cand_traditional
             \<lparr>cand_traditional = ustr ''A'', cand_simplified = ustr ''a'',
              cand_pinyin = ustr ''x1'', cand_definitions = [ustr ''two'', ustr ''three'']\<rparr>"
    by simp
  have d: "cand_pinyin
             \<lparr>cand_traditional = ustr ''A'', cand_simplified = ustr ''a'',
              cand_pinyin = ustr ''x1'', cand_definitions = [ustr ''one'']\<rparr> =
           cand_pinyin
             \<lparr>cand_traditional = ustr ''A'', cand_simplified = ustr ''a'',
              cand_pinyin = ustr ''x1'', cand_definitions = [ustr ''two'', ustr ''three'']\<rparr>"
    by simp
  have o: "\<forall>l\<in>set ([ustr ''no brackets''] @ [ustr ''B b [y] /d/''] @ [ustr ''C c [z] /e/'']).
             \<forall>c. parse_line l = Some c \<longrightarrow>
               cand_traditional c \<noteq>
               cand_traditional
                 \<lparr>cand_traditional = ustr ''A'', cand_simplified = ustr ''a'',
                  cand_pinyin = ustr ''x1'', cand_definitions = [ustr ''one'']\<rparr>"
    by (auto simp: parse_line_def string_eval)
  have cap: "cap_allows (Some 4)
     (length (List.map_filter parse_line
        ([ustr ''no brackets''] @ ustr ''A a [x1] /one/'' # [ustr ''B b [y] /d/''] @
         ustr ''A a [x1] /two/three/'' # [ustr ''C c [z] /e/''])))"
    by (simp add: cap_allows_def parse_line_def string_eval)
  show ?thesis
    using merge_same_pinyin[OF 1 2 k d o cap, of Map.empty]
    by (auto simp: ustr_def uc_def)
qed

section \<open>Distinct headwords\<close>

text \<open>
  C8. When every line of the input is accepted and the traditional headwords of the lines
  are pairwise distinct, the dictionary built under a cap that does not cut the input has
  one record per line, in input order, under the line's traditional headword, and the record's traditional, simplified,
  pinyin and definitions are the fields parsed from that line.
\<close>

theorem distinct_keys_one_record_each:
  assumes "map parse_line ls = map Some cs"
    and "distinct (map cand_traditional cs)"
    and "cap_allows me (length cs)"
  shows "parse_cedict ls fm me =
     map (\<lambda>c. (cand_traditional c,
               \<lparr>traditional = cand_traditional c, simplified = cand_simplified c,
                pinyin = cand_pinyin c, definitions = cand_definitions c,
                frequency = lookup_frequency fm (cand_traditional c) (cand_simplified c)\<rparr>)) cs"
  using foldl_store_distinct[OF assms(2), of "[]" fm]
    parse_loop_uncapped[OF assms(1), of me 0 fm "[]"] assms(3)
  by (simp add: parse_cedict_def new_entry_def)

theorem distinct_keys_one_record_each_witness:
  "parse_cedict [ustr ''A a [x1] /one/'', ustr ''B b [y2] /two/three/'']
     (Map.empty(ustr ''b'' \<mapsto> 7)) (Some 2) =
   [(ustr ''A'', \<lparr>traditional = ustr ''A'', simplified = ustr ''a'', pinyin = ustr ''x1'',
                  definitions = [ustr ''one''], frequency = None\<rparr>),
    (ustr ''B'', \<lparr>traditional = ustr ''B'', simplified = ustr ''b'', pinyin = ustr ''y2'',
                  definitions = [ustr ''two'', ustr ''three''], frequency = Some 7\<rparr>)]"
proof -
  have 1: "map parse_line [ustr ''A a [x1] /one/'', ustr ''B b [y2] /two/three/''] =
           map Some
             [\<lparr>cand_traditional = ustr ''A'', cand_simplified = ustr ''a'',
               cand_pinyin = ustr ''x1'', cand_definitions = [ustr ''one'']\<rparr>,
              \<lparr>cand_traditional = ustr ''B'', cand_simplified = ustr ''b'',
               cand_pinyin = ustr ''y2'', cand_definitions = [ustr ''two'', ustr ''three'']\<rparr>]"
    by (simp add: parse_line_def string_eval)
  have 2: "distinct (map cand_traditional
             [\<lparr>cand_traditional = ustr ''A'', cand_simplified = ustr ''a'',
               cand_pinyin = ustr ''x1'', cand_definitions = [ustr ''one'']\<rparr>,
              \<lparr>cand_traditional = ustr ''B'', cand_simplified = ustr ''b'',
               cand_pinyin = ustr ''y2'', cand_definitions = [ustr ''two'', ustr ''three'']\<rparr>])"
    by (simp add: ustr_def uc_def)
  have 3: "cap_allows (Some 2)
             (length
               [\<lparr>cand_traditional = ustr ''A'', cand_simplified = ustr ''a'',
                 cand_pinyin = ustr ''x1'', cand_definitions = [ustr ''one'']\<rparr>,
                \<lparr>cand_traditional = ustr ''B'', cand_simplified = ustr ''b'',
                 cand_pinyin = ustr ''y2'', cand_definitions = [ustr ''two'', ustr ''three'']\<rparr>])"
    by (simp add: cap_allows_def)
  show ?thesis
    using distinct_keys_one_record_each[OF 1 2 3, of "Map.empty(ustr ''b'' \<mapsto> 7)"]
    by (simp add: lookup_frequency_def py_or_def truthy_def ustr_def uc_def)
qed

section \<open>Invariants of the records\<close>

text \<open>
  C4. For a record stored under a key, a line merged into it changes the stored frequency
  only when the frequency looked up for that line is present and either nothing is stored
  or the looked-up value is strictly greater than the stored one; and whatever lines follow
  (with or without a cap), the record is still there and its frequency has not decreased,
  an unset frequency counting as below every score.
\<close>

theorem frequency_never_decreases:
  assumes "map_of dict k = Some existing"
  shows "(\<forall>c. cand_traditional c = k \<longrightarrow>
            (\<exists>r. map_of (store fm dict c) k = Some r \<and>
                 (frequency r = frequency existing \<or>
                  (\<exists>f. lookup_frequency fm (cand_traditional c) (cand_simplified c) = Some f \<and>
                       frequency r = Some f \<and>
                       (case frequency existing of None \<Rightarrow> True | Some g \<Rightarrow> g < f))))) \<and>
         (\<exists>r. map_of (parse_loop fm me ls dict n) k = Some r \<and>
              freq_le (frequency existing) (frequency r))"
proof
  show "\<forall>c. cand_traditional c = k \<longrightarrow>
            (\<exists>r. map_of (store fm dict c) k = Some r \<and>
                 (frequency r = frequency existing \<or>
                  (\<exists>f. lookup_frequency fm (cand_traditional c) (cand_simplified c) = Some f \<and>
                       frequency r = Some f \<and>
                       (case frequency existing of None \<Rightarrow> True | Some g \<Rightarrow> g < f))))"
  proof (intro allI impI)
    fix c :: candidate assume "cand_traditional c = k"
    then show "\<exists>r. map_of (store fm dict c) k = Some r \<and>
                 (frequency r = frequency existing \<or>
                  (\<exists>f. lookup_frequency fm (cand_traditional c) (cand_simplified c) = Some f \<and>
                       frequency r = Some f \<and>
                       (case frequency existing of None \<Rightarrow> True | Some g \<Rightarrow> g < f)))"
      using assms
        frequency_merge_entry[of existing c "lookup_frequency fm (cand_traditional c) (cand_simplified c)"]
      by (auto simp: store_lookup)
  qed
next
  show "\<exists>r. map_of (parse_loop fm me ls dict n) k = Some r \<and>
            freq_le (frequency existing) (frequency r)"
    by (rule parse_loop_related[where R = "\<lambda>a b. freq_le (frequency a) (frequency b)", OF _ _ _ assms])
       (auto intro: freq_le_refl freq_le_trans freq_le_merge_entry)
qed

text \<open>A record with score 5, then a line of the same headword whose score is 3, then one
  whose score is 8: the stored score stays 5 and then becomes 8.\<close>

theorem frequency_never_decreases_witness:
  "(\<exists>r. map_of (store ((Map.empty(ustr ''a'' \<mapsto> 3))(ustr ''b'' \<mapsto> 8))
                  [(ustr ''A'', \<lparr>traditional = ustr ''A'', simplified = ustr ''c'', pinyin = ustr ''x'',
                                 definitions = [ustr ''d''], frequency = Some 5\<rparr>)]
                  \<lparr>cand_traditional = ustr ''A'', cand_simplified = ustr ''a'',
                    cand_pinyin = ustr ''y'', cand_definitions = [ustr ''e'']\<rparr>) (ustr ''A'') = Some r \<and>
        frequency r = Some 5) \<and>
   (\<exists>r. map_of (parse_loop ((Map.empty(ustr ''a'' \<mapsto> 3))(ustr ''b'' \<mapsto> 8)) None
                  [ustr ''A a [y] /e/'', ustr ''A b [z] /f/'']
                  [(ustr ''A'', \<lparr>traditional = ustr ''A'', simplified = ustr ''c'', pinyin = ustr ''x'',
                                 definitions = [ustr ''d''], frequency = Some 5\<rparr>)] 1) (ustr ''A'') = Some r \<and>
        freq_le (Some 5) (frequency r) \<and> frequency r = Some 8)"
proof -
  have h: "map_of [(ustr ''A'', \<lparr>traditional = ustr ''A'', simplified = ustr ''c'', pinyin = ustr ''x'',
                                 definitions = [ustr ''d''], frequency = Some 5\<rparr>)] (ustr ''A'') =
           Some \<lparr>traditional = ustr ''A'', simplified = ustr ''c'', pinyin = ustr ''x'',
                 definitions = [ustr ''d''], frequency = Some 5\<rparr>"
    by simp
  show ?thesis
    using frequency_never_decreases[OF h, of "(Map.empty(ustr ''a'' \<mapsto> 3))(ustr ''b'' \<mapsto> 8)" None
        "[ustr ''A a [y] /e/'', ustr ''A b [z] /f/'']" 1]
    by (simp add: parse_eval freq_le_def)
qed

text \<open>
  C9. For a record stored under a key, merging any candidate into the dictionary, and
  reading any further lines, leaves the record's traditional and simplified fields as they
  were: the simplified form of a later line with the same traditional headword is ignored.
\<close>

theorem merge_keeps_headwords:
  assumes "map_of dict k = Some existing"
  shows "(\<exists>r. map_of (store fm dict c) k = Some r \<and>
              traditional r = traditional existing \<and> simplified r = simplified existing) \<and>
         (\<exists>r. map_of (parse_loop fm me ls dict n) k = Some r \<and>
              traditional r = traditional existing \<and> simplified r = simplified existing)"
proof
  show "\<exists>r. map_of (store fm dict c) k = Some r \<and>
            traditional r = traditional existing \<and> simplified r = simplified existing"
    using assms by (cases "cand_traditional c = k") (simp_all add: store_lookup merge_entry_fields)
next
  show "\<exists>r. map_of (parse_loop fm me ls dict n) k = Some r \<and>
            traditional r = traditional existing \<and> simplified r = simplified existing"
    by (rule parse_loop_related[where R = "\<lambda>a b. traditional b = traditional a \<and> simplified b = simplified a",
          OF _ _ _ assms])
       (simp_all add: merge_entry_fields)
qed

text \<open>The record made by the line \<open>A a [x] /d/\<close>, then the line \<open>A b [y] /e/\<close> with another
  simplified form: the record keeps \<open>a\<close>.\<close>

theorem merge_keeps_headwords_witness:
  "(\<exists>r. map_of (store Map.empty (parse_cedict [ustr ''A a [x] /d/''] Map.empty None)
                  \<lparr>cand_traditional = ustr ''A'', cand_simplified = ustr ''b'',
                    cand_pinyin = ustr ''y'', cand_definitions = [ustr ''e'']\<rparr>) (ustr ''A'') = Some r \<and>
        traditional r = ustr ''A'' \<and> simplified r = ustr ''a'') \<and>
   (\<exists>r. map_of (parse_loop Map.empty None [ustr ''A b [y] /e/'']
                  (parse_cedict [ustr ''A a [x] /d/''] Map.empty None) 1) (ustr ''A'') = Some r \<and>
        traditional r = ustr ''A'' \<and> simplified r = ustr ''a'')"
proof -
  have h: "map_of (parse_cedict [ustr ''A a [x] /d/''] Map.empty None) (ustr ''A'') =
           Some \<lparr>traditional = ustr ''A'', simplified = ustr ''a'', pinyin = ustr ''x'',
                 definitions = [ustr ''d''], frequency = None\<rparr>"
    by (simp add: parse_eval)
  show ?thesis
    using merge_keeps_headwords[OF h, of Map.empty
        "\<lparr>cand_traditional = ustr ''A'', cand_simplified = ustr ''b'',
          cand_pinyin = ustr ''y'', cand_definitions = [ustr ''e'']\<rparr>" None "[ustr ''A b [y] /e/'']" 1]
    by simp
qed

text \<open>
  C10. For every input, frequency mapping and cap, every record of the returned dictionary
  is stored under its own traditional field and no key occurs twice; one accepted line
  keeps the agreement of key and field. The five fields of a record are those of the
  record type, which is the dictionary literal of lines 223 to 229; a merge assigns to
  fields of that record only.
\<close>

theorem key_field_agreement:
  "(\<forall>(k, r)\<in>set (parse_cedict lines fm me). traditional r = k) \<and>
   distinct (map fst (parse_cedict lines fm me)) \<and>
   ((\<forall>(k, r)\<in>set dict. traditional r = k) \<longrightarrow> (\<forall>(k, r)\<in>set (store fm dict c). traditional r = k))"
proof -
  have 1: "\<forall>(k, r)\<in>set (parse_loop fm me lines [] 0). traditional r = k"
  proof (rule parse_loop_invariant[where I = "\<lambda>d. \<forall>(k, r)\<in>set d. traditional r = k"])
    show "\<forall>(k, r)\<in>set []. traditional r = k" by simp
  qed (rule store_key_agreement)
  have 2: "distinct (map fst (parse_loop fm me lines [] 0))"
  proof (rule parse_loop_invariant[where I = "\<lambda>d. distinct (map fst d)"])
    show "distinct (map fst ([] :: dictionary))" by simp
  qed (rule store_distinct)
  show ?thesis using 1 2 store_key_agreement[of dict fm c] by (simp add: parse_cedict_def)
qed

theorem key_field_agreement_witness:
  "list_all (\<lambda>(k, r). traditional r = k)
     (parse_cedict [ustr ''A a [x] /d/'', ustr ''B b [y] /e/'', ustr ''A c [z] /f/''] Map.empty (Some 5)) \<and>
   distinct (map fst
     (parse_cedict [ustr ''A a [x] /d/'', ustr ''B b [y] /e/'', ustr ''A c [z] /f/''] Map.empty (Some 5))) \<and>
   length (parse_cedict [ustr ''A a [x] /d/'', ustr ''B b [y] /e/'', ustr ''A c [z] /f/''] Map.empty (Some 5)) = 2 \<and>
   list_all (\<lambda>(k, r). traditional r = k)
     (store Map.empty
        [(ustr ''A'', \<lparr>traditional = ustr ''A'', simplified = ustr ''a'', pinyin = ustr ''x'',
                       definitions = [ustr ''d''], frequency = None\<rparr>)]
        \<lparr>cand_traditional = ustr ''A'', cand_simplified = ustr ''c'',
          cand_pinyin = ustr ''z'', cand_definitions = [ustr ''f'']\<rparr>)"
proof -
  have "length (parse_cedict [ustr ''A a [x] /d/'', ustr ''B b [y] /e/'', ustr ''A c [z] /f/'']
          Map.empty (Some 5)) = 2"
    by (simp add: parse_eval)
  then show ?thesis
    using key_field_agreement[of "[ustr ''A a [x] /d/'', ustr ''B b [y] /e/'', ustr ''A c [z] /f/'']"
        Map.empty "Some 5"
        "[(ustr ''A'', \<lparr>traditional = ustr ''A'', simplified = ustr ''a'', pinyin = ustr ''x'',
                        definitions = [ustr ''d''], frequency = None\<rparr>)]"
        "\<lparr>cand_traditional = ustr ''A'', cand_simplified = ustr ''c'',
          cand_pinyin = ustr ''z'', cand_definitions = [ustr ''f'']\<rparr>"]
    by (simp add: list_all_iff)
qed

section \<open>Stripping and splitting\<close>



lemma split_ws_from_leading: "split_ws_from [] (dropWhile isspace s) = split_ws_from [] s"
  by (induction s) simp_all

lemma split_ws_from_blank: "\<forall>x\<in>set ws. isspace x \<Longrightarrow> split_ws_from cur ws = split_ws_from cur []"
  by (induction ws arbitrary: cur) simp_all

lemma split_ws_from_trailing:
  "\<forall>x\<in>set ws. isspace x \<Longrightarrow> split_ws_from cur (s @ ws) = split_ws_from cur s"
proof (induction s arbitrary: cur)
  case Nil
  then show ?case using split_ws_from_blank[of ws cur] by simp
next
  case (Cons c s)
  then show ?case by simp
qed

lemma split_ws_strip: "split_ws (strip s) = split_ws s"
proof -
  let ?t = "dropWhile isspace s"
  have "?t = rev (dropWhile isspace (rev ?t)) @ rev (takeWhile isspace (rev ?t))"
    using takeWhile_dropWhile_id[of isspace "rev ?t"]
    by (metis rev_append rev_rev_ident)
  moreover have "\<forall>x\<in>set (rev (takeWhile isspace (rev ?t))). isspace x"
    by (auto dest: set_takeWhileD)
  ultimately have "split_ws_from [] ?t = split_ws_from [] (rev (dropWhile isspace (rev ?t)))"
    using split_ws_from_trailing[of "rev (takeWhile isspace (rev ?t))" "[]" "rev (dropWhile isspace (rev ?t))"]
    by simp
  then show ?thesis
    by (simp add: split_ws_def strip_def strip_where_def split_ws_from_leading)
qed


lemma parse_line_malformed:
  assumes "uc CHR ''['' \<notin> set l \<or>
           uc CHR '']'' \<notin> set (tl (dropWhile (\<lambda>x. x \<noteq> uc CHR ''['') l)) \<or>
           length (split_ws (takeWhile (\<lambda>x. x \<noteq> uc CHR ''['') l)) < 2"
  shows "parse_line l = None"
  using assms by (auto simp: parse_line_def split1_def Let_def split_ws_strip)

lemma parse_loop_skip:
  "parse_line l = None \<Longrightarrow>
   parse_loop fm me (before @ l # rest) dict n = parse_loop fm me (before @ rest) dict n"
  by (induction before arbitrary: dict n) (auto simp: Let_def split: option.splits)

lemma pinyin_merge_entry_nonempty: "pinyin e \<noteq> [] \<Longrightarrow> pinyin (merge_entry e c f) \<noteq> []"
  by (simp add: merge_entry_fields)



section \<open>Frequency of a new record\<close>

text \<open>
  C7, amended. When the frequency mapping does not map the traditional form to 0, the
  frequency looked up for a candidate is the mapping's value for the traditional form when
  it has one, otherwise the mapping's value for the simplified form when it has one, and
  otherwise unset; a record created for a new key stores exactly that frequency.
\<close>

theorem lookup_traditional_then_simplified:
  assumes "fm (cand_traditional c) \<noteq> Some 0"
  shows "lookup_frequency fm (cand_traditional c) (cand_simplified c) =
           (case fm (cand_traditional c) of Some v \<Rightarrow> Some v | None \<Rightarrow> fm (cand_simplified c)) \<and>
         (map_of dict (cand_traditional c) = None \<longrightarrow>
            (\<exists>r. map_of (store fm dict c) (cand_traditional c) = Some r \<and>
                 frequency r =
                   (case fm (cand_traditional c) of Some v \<Rightarrow> Some v | None \<Rightarrow> fm (cand_simplified c))))"
  using assms
  by (auto simp: store_lookup new_entry_def lookup_frequency_cases split: option.splits)

theorem lookup_traditional_then_simplified_witness:
  "lookup_frequency ((Map.empty(ustr ''A'' \<mapsto> 4))(ustr ''a'' \<mapsto> 9)) (ustr ''A'') (ustr ''a'') = Some 4 \<and>
   lookup_frequency (Map.empty(ustr ''a'' \<mapsto> 9)) (ustr ''A'') (ustr ''a'') = Some 9 \<and>
   lookup_frequency Map.empty (ustr ''A'') (ustr ''a'') = None \<and>
   (\<exists>r. map_of (store (Map.empty(ustr ''a'' \<mapsto> 9)) []
                  \<lparr>cand_traditional = ustr ''A'', cand_simplified = ustr ''a'',
                    cand_pinyin = ustr ''x'', cand_definitions = [ustr ''d'']\<rparr>) (ustr ''A'') = Some r \<and>
        frequency r = Some 9)"
  using
    lookup_traditional_then_simplified[of "(Map.empty(ustr ''A'' \<mapsto> 4))(ustr ''a'' \<mapsto> 9)"
      "\<lparr>cand_traditional = ustr ''A'', cand_simplified = ustr ''a'',
        cand_pinyin = ustr ''x'', cand_definitions = [ustr ''d'']\<rparr>" "[]"]
    lookup_traditional_then_simplified[of "Map.empty(ustr ''a'' \<mapsto> 9)"
      "\<lparr>cand_traditional = ustr ''A'', cand_simplified = ustr ''a'',
        cand_pinyin = ustr ''x'', cand_definitions = [ustr ''d'']\<rparr>" "[]"]
    lookup_traditional_then_simplified[of Map.empty
      "\<lparr>cand_traditional = ustr ''A'', cand_simplified = ustr ''a'',
        cand_pinyin = ustr ''x'', cand_definitions = [ustr ''d'']\<rparr>" "[]"]
  by (simp add: ustr_def uc_def)

text \<open>The claim as stated fails when the traditional form has the score 0: the mapping
  contains the traditional form, and the record takes the score of the simplified form.\<close>

theorem lookup_zero_score_counterexample:
  "((Map.empty(ustr ''A'' \<mapsto> 0))(ustr ''a'' \<mapsto> 5)) (ustr ''A'') = Some 0 \<and>
   map_of (parse_cedict [ustr ''A a [x] /d/''] ((Map.empty(ustr ''A'' \<mapsto> 0))(ustr ''a'' \<mapsto> 5)) None)
     (ustr ''A'') =
   Some \<lparr>traditional = ustr ''A'', simplified = ustr ''a'', pinyin = ustr ''x'',
         definitions = [ustr ''d''], frequency = Some 5\<rparr>"
  by (simp add: parse_eval)

section \<open>Empty pronunciations\<close>




section \<open>Malformed lines\<close>

text \<open>
  C6. A line that has no \<open>[\<close>, or no \<open>]\<close> after its first \<open>[\<close>, or fewer than two
  whitespace-separated tokens before its first \<open>[\<close>, is rejected; the loop goes on with the
  next line with the dictionary and the counter unchanged, so the result is that of the
  input without this line, whatever comes before and after it and whatever the cap.
\<close>

theorem malformed_line_skipped:
  assumes "uc CHR ''['' \<notin> set l \<or>
           uc CHR '']'' \<notin> set (tl (dropWhile (\<lambda>x. x \<noteq> uc CHR ''['') l)) \<or>
           length (split_ws (takeWhile (\<lambda>x. x \<noteq> uc CHR ''['') l)) < 2"
  shows "parse_line l = None \<and>
         parse_loop fm me (l # rest) dict n = parse_loop fm me rest dict n \<and>
         parse_cedict (before @ l # rest) fm me = parse_cedict (before @ rest) fm me"
  using parse_line_malformed[OF assms] parse_loop_skip[of l fm me before rest "[]" 0]
  by (simp add: parse_cedict_def)

text \<open>Three malformed lines between two good ones: no \<open>[\<close>, no \<open>]\<close>, one token only.\<close>

theorem malformed_line_skipped_witness:
  "parse_line (ustr ''B b y] /e/'') = None \<and>
   parse_line (ustr ''B b [y /e/'') = None \<and>
   parse_line (ustr ''B [y] /e/'') = None \<and>
   parse_cedict [ustr ''A a [x] /d/'', ustr ''B b y] /e/'', ustr ''B b [y /e/'', ustr ''B [y] /e/'',
                 ustr ''C c [z] /f/''] Map.empty None =
   parse_cedict [ustr ''A a [x] /d/'', ustr ''C c [z] /f/''] Map.empty None"
proof -
  have 1: "uc CHR ''['' \<notin> set (ustr ''B b y] /e/'') \<or>
           uc CHR '']'' \<notin> set (tl (dropWhile (\<lambda>x. x \<noteq> uc CHR ''['') (ustr ''B b y] /e/''))) \<or>
           length (split_ws (takeWhile (\<lambda>x. x \<noteq> uc CHR ''['') (ustr ''B b y] /e/''))) < 2"
    by (simp add: ustr_def uc_def)
  have 2: "uc CHR ''['' \<notin> set (ustr ''B b [y /e/'') \<or>
           uc CHR '']'' \<notin> set (tl (dropWhile (\<lambda>x. x \<noteq> uc CHR ''['') (ustr ''B b [y /e/''))) \<or>
           length (split_ws (takeWhile (\<lambda>x. x \<noteq> uc CHR ''['') (ustr ''B b [y /e/''))) < 2"
    by (simp add: ustr_def uc_def)
  have 3: "uc CHR ''['' \<notin> set (ustr ''B [y] /e/'') \<or>
           uc CHR '']'' \<notin> set (tl (dropWhile (\<lambda>x. x \<noteq> uc CHR ''['') (ustr ''B [y] /e/''))) \<or>
           length (split_ws (takeWhile (\<lambda>x. x \<noteq> uc CHR ''['') (ustr ''B [y] /e/''))) < 2"
    by (simp add: string_eval)
  show ?thesis
    using
      malformed_line_skipped[OF 1, of Map.empty None
        "[ustr ''B b [y /e/'', ustr ''B [y] /e/'', ustr ''C c [z] /f/'']" "[]" 0 "[ustr ''A a [x] /d/'']"]
      malformed_line_skipped[OF 2, of Map.empty None
        "[ustr ''B [y] /e/'', ustr ''C c [z] /f/'']" "[]" 0 "[ustr ''A a [x] /d/'']"]
      malformed_line_skipped[OF 3, of Map.empty None
        "[ustr ''C c [z] /f/'']" "[]" 0 "[ustr ''A a [x] /d/'']"]
    by simp
qed

section \<open>Ranks and scores\<close>

lemma strip_where_idem: "strip_where P (strip_where P s) = strip_where P s"
proof -
  let ?t = "dropWhile P s"
  let ?u = "rev (dropWhile P (rev ?t))"
  have split: "?t = ?u @ rev (takeWhile P (rev ?t))"
    using takeWhile_dropWhile_id[of P "rev ?t"] by (metis rev_append rev_rev_ident)
  have A: "dropWhile P ?u = ?u"
  proof (cases ?u)
    case Nil
    show ?thesis unfolding Nil by simp
  next
    case (Cons a u')
    then have "?t = a # u' @ rev (takeWhile P (rev ?t))" using split by simp
    then have "\<not> P a" using hd_dropWhile[of P s] by (metis list.sel(1) list.simps(3))
    then show ?thesis using Cons by simp
  qed
  have B: "rev (dropWhile P (rev ?u)) = ?u" by simp
  show ?thesis unfolding strip_where_def using A B by simp
qed

lemma strip_strip_tags: "strip (strip_tags x) = strip_tags x"
  by (simp add: strip_tags_def strip_def strip_where_idem)

lemma first_rank_simps:
  "first_rank w [] = None"
  "first_rank w ((r, t, s) # xs) = (if t = w \<or> s = w then Some r else first_rank w xs)"
  by (simp_all add: first_rank_def)

lemma first_rank_append:
  "first_rank w (xs @ ys) = (case first_rank w xs of Some r \<Rightarrow> Some r | None \<Rightarrow> first_rank w ys)"
  by (induction xs) (auto simp: first_rank_def)

lemma ranked_rows_simps:
  "ranked_rows i n [] = []"
  "ranked_rows i n (cells # rest) =
     (if length cells < 2 then ranked_rows i n rest
      else (if strip_tags (cells ! 0) \<noteq> [] \<and> strip_tags (cells ! 1) \<noteq> []
            then [(i * 1000 + (n + 1), strip_tags (cells ! 0), strip_tags (cells ! 1))] else []) @
           ranked_rows i (Suc n) rest)"
  by (simp_all add: ranked_rows_def)

lemma ranked_words_simps:
  "ranked_words i [] = []"
  "ranked_words i (p # ps) =
     (case p of None \<Rightarrow> [] | Some rows \<Rightarrow> ranked_rows i 0 rows) @ ranked_words (Suc i) ps"
  by (simp_all add: ranked_words_def)

lemma rows_loop_score:
  "rows_loop i rows fm rc w =
     (case fm w of
        Some v \<Rightarrow> Some v
      | None \<Rightarrow> map_option (\<lambda>r. 11000 - int r) (first_rank w (ranked_rows i rc rows)))"
proof (induction rows arbitrary: fm rc)
  case Nil
  then show ?case by (simp add: ranked_rows_simps first_rank_simps split: option.splits)
next
  case (Cons cells rest)
  show ?case
  proof (cases "length cells < 2")
    case True
    then show ?thesis using Cons.IH[of fm rc] by (simp add: ranked_rows_simps split: option.splits)
  next
    case long: False
    show ?thesis
    proof (cases "strip_tags (cells ! 0) = [] \<or> strip_tags (cells ! 1) = []")
      case True
      then show ?thesis using long Cons.IH[of fm "rc + 1"]
        by (auto simp: ranked_rows_simps Let_def split: option.splits)
    next
      case False
      then show ?thesis using long
        by (auto simp: Cons.IH ranked_rows_simps first_rank_simps Let_def strip_strip_tags
              split: option.splits)
    qed
  qed
qed

lemma pages_loop_score:
  "pages_loop i pages fm w =
     (case fm w of
        Some v \<Rightarrow> Some v
      | None \<Rightarrow> map_option (\<lambda>r. 11000 - int r) (first_rank w (ranked_words i pages)))"
proof (induction pages arbitrary: i fm)
  case Nil
  then show ?case by (simp add: ranked_words_simps first_rank_simps split: option.splits)
next
  case (Cons p ps)
  show ?case
  proof (cases p)
    case None
    then show ?thesis using Cons.IH[of "i + 1" fm] by (simp add: ranked_words_simps split: option.splits)
  next
    case (Some rows)
    then show ?thesis
      by (simp add: Cons.IH rows_loop_score ranked_words_simps first_rank_append split: option.splits)
  qed
qed

section \<open>Scores of the frequency table\<close>

text \<open>
  C2, amended. The score that the frequency mapping holds for a word is \<open>11000 - r\<close>, where
  \<open>r = page_index * 1000 + position_in_page\<close> is the rank of the first accepted row in which
  the word is the traditional or the simplified form (the position counts, from 1, the rows
  of the page that have at least two cells); a word of no accepted row has no score. So
  rank 1 has the score 10999 and rank 10999 has the score 1.
\<close>

theorem score_is_span_minus_rank:
  "download_frequency_lists pages w =
     map_option (\<lambda>r. 11000 - int r) (first_rank w (ranked_words 0 pages))"
  by (simp add: download_frequency_lists_def pages_loop_score)


text \<open>
  A first page with a header row without cells, a row with markup, a row whose second cell
  is empty (counted, not accepted) and a row that repeats a word; a second page that failed
  to load; a third page with one row.
\<close>

theorem score_is_span_minus_rank_witness:
  "download_frequency_lists
     [Some [[ustr ''Traditional''], [ustr ''<a href=x>A</a>'', ustr '' a ''], [ustr ''B'', ustr ''<b></b>''],
            [ustr ''C'', ustr ''A'']],
      None,
      Some [[ustr ''D'', ustr ''C'']]] (ustr ''A'') = Some 10999 \<and>
   download_frequency_lists
     [Some [[ustr ''Traditional''], [ustr ''<a href=x>A</a>'', ustr '' a ''], [ustr ''B'', ustr ''<b></b>''],
            [ustr ''C'', ustr ''A'']],
      None,
      Some [[ustr ''D'', ustr ''C'']]] (ustr ''C'') = Some 10997 \<and>
   download_frequency_lists
     [Some [[ustr ''Traditional''], [ustr ''<a href=x>A</a>'', ustr '' a ''], [ustr ''B'', ustr ''<b></b>''],
            [ustr ''C'', ustr ''A'']],
      None,
      Some [[ustr ''D'', ustr ''C'']]] (ustr ''D'') = Some 8999 \<and>
   download_frequency_lists
     [Some [[ustr ''Traditional''], [ustr ''<a href=x>A</a>'', ustr '' a ''], [ustr ''B'', ustr ''<b></b>''],
            [ustr ''C'', ustr ''A'']],
      None,
      Some [[ustr ''D'', ustr ''C'']]] (ustr ''B'') = None"
proof -
  have r: "ranked_words 0
     [Some [[ustr ''Traditional''], [ustr ''<a href=x>A</a>'', ustr '' a ''], [ustr ''B'', ustr ''<b></b>''],
            [ustr ''C'', ustr ''A'']],
      None,
      Some [[ustr ''D'', ustr ''C'']]] =
     [(1, ustr ''A'', ustr ''a''), (3, ustr ''C'', ustr ''A''), (2001, ustr ''D'', ustr ''C'')]"
    by (simp add: ranked_words_def ranked_rows_def strip_tags_def string_eval)
  show ?thesis
    unfolding score_is_span_minus_rank r
    by (simp add: first_rank_def ustr_def uc_def)
qed

text \<open>The claim as stated fails at rank 1: the score is 10999 and not \<open>11000 + 1 - 1\<close>.\<close>

theorem score_span_plus_one_counterexample:
  "first_rank (ustr ''A'') (ranked_words 0 [Some [[ustr ''A'', ustr ''a'']]]) = Some 1 \<and>
   download_frequency_lists [Some [[ustr ''A'', ustr ''a'']]] (ustr ''A'') = Some 10999 \<and>
   download_frequency_lists [Some [[ustr ''A'', ustr ''a'']]] (ustr ''A'') \<noteq> Some (11000 + 1 - 1)"
  by (simp add: download_frequency_lists_def strip_tags_def first_rank_def ranked_words_def
        ranked_rows_def string_eval)

end
